theory Spec2Isabelle
  imports Main
begin

section \<open>Strings as the migrator uses them\<close>

text \<open>
  A Python \<open>str\<close> is modelled as a \<open>string\<close> whose characters are the code points
  below 256. The operations below are the ones \<open>migrator.py\<close> applies to strings:
  \<open>lower\<close>, \<open>strip\<close>, \<open>replace\<close>, \<open>split\<close>, \<open>index\<close>, slicing, \<open>in\<close>, \<open>join\<close> and the
  decimal rendering of an integer inside an f-string.
\<close>

abbreviation sq :: string where
  "sq \<equiv> [CHR 0x27]"

abbreviation dq :: string where
  "dq \<equiv> [CHR 0x22]"

definition lower_char :: "char \<Rightarrow> char" where
  "lower_char c =
     (let n = (of_char c :: nat)
      in if (65 \<le> n \<and> n \<le> 90) \<or> (192 \<le> n \<and> n \<le> 222 \<and> n \<noteq> 215)
         then char_of (n + 32) else c)"

definition lower :: "string \<Rightarrow> string" where
  "lower s = map lower_char s"

definition digit_char :: "nat \<Rightarrow> char" where
  "digit_char d = ''0123456789'' ! d"

fun str_nat :: "nat \<Rightarrow> string" where
  "str_nat n =
     (if n < 10 then [digit_char n]
      else str_nat (n div 10) @ [digit_char (n mod 10)])"

declare str_nat.simps [simp del]

definition str_int :: "int \<Rightarrow> string" where
  "str_int i = (if i < 0 then CHR ''-'' # str_nat (nat (- i)) else str_nat (nat i))"

text \<open>\<open>x or d\<close> on an optional integer: \<open>None\<close> and \<open>0\<close> are both falsy.\<close>

definition py_or :: "int option \<Rightarrow> int \<Rightarrow> int" where
  "py_or x d = (case x of None \<Rightarrow> d | Some n \<Rightarrow> if n = 0 then d else n)"

section \<open>Type mapping\<close>

definition mapping :: "(string \<times> string) list" where
  "mapping =
     [(''integer'', ''INT''),
      (''int4'', ''INT''),
      (''bigint'', ''BIGINT''),
      (''int8'', ''BIGINT''),
      (''smallint'', ''SMALLINT''),
      (''boolean'', ''BIT''),
      (''date'', ''DATE''),
      (''timestamp without time zone'', ''DATETIME2''),
      (''timestamp with time zone'', ''DATETIME2''),
      (''double precision'', ''FLOAT''),
      (''real'', ''REAL'')]"

definition map_pg_type ::
  "string \<Rightarrow> int option \<Rightarrow> int option \<Rightarrow> int option \<Rightarrow> bool \<Rightarrow> string" where
  "map_pg_type pg_type0 len precision scale is_serial =
     (let pg_type = lower pg_type0 in
      if is_serial then ''INT IDENTITY(1,1)''
      else
        (case map_of mapping pg_type of
           Some t \<Rightarrow> t
         | None \<Rightarrow>
             if pg_type = ''character varying'' then
               (case len of
                  None \<Rightarrow> ''NVARCHAR(MAX)''
                | Some n \<Rightarrow>
                    if n = 0 \<or> n > 4000 then ''NVARCHAR(MAX)''
                    else ''NVARCHAR('' @ str_int n @ '')'')
             else if pg_type = ''text'' then ''NVARCHAR(MAX)''
             else if pg_type \<in> set [''numeric'', ''decimal''] then
               ''DECIMAL('' @ str_int (py_or precision 18) @ '','' @ str_int (py_or scale 4) @ '')''
             else ''NVARCHAR(MAX)''))"

text \<open>The source type names that some branch of \<open>map_pg_type\<close> names explicitly.\<close>

definition recognized_types :: "string list" where
  "recognized_types =
     map fst mapping @ [''character varying'', ''text'', ''numeric'', ''decimal'']"

text \<open>\<open>sep.join(xs)\<close>.\<close>

fun join :: "string \<Rightarrow> string list \<Rightarrow> string" where
  "join sep [] = []"
| "join sep [x] = x"
| "join sep (x # y # ys) = x @ sep @ join sep (y # ys)"

text \<open>\<open>s.startswith(p)\<close> and \<open>sub in s\<close>.\<close>

fun startswith :: "string \<Rightarrow> string \<Rightarrow> bool" where
  "startswith s [] = True"
| "startswith [] (p # ps) = False"
| "startswith (c # cs) (p # ps) = (c = p \<and> startswith cs ps)"

fun contains :: "string \<Rightarrow> string \<Rightarrow> bool" where
  "contains [] sub = (sub = [])"
| "contains (c # cs) sub = (startswith (c # cs) sub \<or> contains cs sub)"

text \<open>\<open>s.index(ch)\<close> raises \<open>ValueError\<close> when \<open>ch\<close> does not occur in \<open>s\<close>.\<close>

datatype error = ValueError

fun str_index :: "string \<Rightarrow> char \<Rightarrow> error + nat" where
  "str_index [] ch = Inl ValueError"
| "str_index (c # cs) ch =
     (if c = ch then Inr 0
      else (case str_index cs ch of Inl e \<Rightarrow> Inl e | Inr i \<Rightarrow> Inr (Suc i)))"

text \<open>\<open>s[start:stop]\<close> for indices that are not negative: empty when \<open>stop \<le> start\<close>.\<close>

definition slice :: "string \<Rightarrow> nat \<Rightarrow> nat \<Rightarrow> string" where
  "slice s start stop = drop start (take stop s)"

text \<open>\<open>s.replace('"', "")\<close>.\<close>

definition replace_dq :: "string \<Rightarrow> string" where
  "replace_dq s = filter (\<lambda>c. c \<noteq> CHR 0x22) s"

text \<open>\<open>s.split(sep)\<close> for a separator of one character: never an empty list.\<close>

fun split_on :: "char \<Rightarrow> string \<Rightarrow> string list" where
  "split_on sep [] = [[]]"
| "split_on sep (c # cs) =
     (if c = sep then [] # split_on sep cs
      else (case split_on sep cs of
              [] \<Rightarrow> [[c]]
            | w # ws \<Rightarrow> (c # w) # ws))"

text \<open>
  \<open>c.isspace()\<close> on the code points below 256: tab to carriage return, the four
  separators \<open>0x1C\<close> to \<open>0x1F\<close>, space, next line and no-break space.
\<close>

definition isspace :: "char \<Rightarrow> bool" where
  "isspace c =
     (let n = (of_char c :: nat)
      in (9 \<le> n \<and> n \<le> 13) \<or> (28 \<le> n \<and> n \<le> 32) \<or> n = 133 \<or> n = 160)"

definition strip :: "string \<Rightarrow> string" where
  "strip s = rev (dropWhile isspace (rev (dropWhile isspace s)))"

section \<open>Descriptors and the target cursor\<close>

text \<open>
  A column is the dictionary \<open>get_columns\<close> builds; the fields are its keys. An index is
  the pair \<open>(indexname, indexdef)\<close> and a foreign key the 5-tuple that the catalog
  queries return. The target cursor is modelled by the list of statements passed to
  \<open>sql.execute\<close>, oldest first.
\<close>

record column =
  c_name :: string
  c_data_type :: string
  c_nullable :: bool
  c_length :: "int option"
  c_precision :: "int option"
  c_scale :: "int option"
  c_is_serial :: bool

type_synonym sql_log = "string list"

type_synonym foreign_key = "string \<times> string \<times> string \<times> string \<times> string"

section \<open>CREATE TABLE\<close>

definition schema_sql :: "string \<Rightarrow> string" where
  "schema_sql schema =
     ''IF NOT EXISTS (SELECT 1 FROM sys.schemas WHERE name='' @ sq @ schema @ sq @
     '') EXEC('CREATE SCHEMA ['' @ schema @ '']');''"

definition col_def :: "column \<Rightarrow> string" where
  "col_def c =
     (let sql_type = map_pg_type (c_data_type c) (c_length c) (c_precision c) (c_scale c)
                       (c_is_serial c);
          null_str = (if c_nullable c \<and> \<not> c_is_serial c then ''NULL'' else ''NOT NULL'')
      in ''['' @ c_name c @ ''] '' @ sql_type @ '' '' @ null_str)"

definition pk_clause :: "string \<Rightarrow> string \<Rightarrow> string list \<Rightarrow> string" where
  "pk_clause schema table pk =
     (if pk \<noteq> [] then
        (let pk_cols = join '', '' (map (\<lambda>c. ''['' @ c @ '']'') pk)
         in '', CONSTRAINT [PK_'' @ schema @ ''_'' @ table @ ''] PRIMARY KEY ('' @ pk_cols @ '')'')
      else [])"

definition create_sql :: "string \<Rightarrow> string \<Rightarrow> column list \<Rightarrow> string list \<Rightarrow> string" where
  "create_sql schema table columns pk =
     ''\<newline>        IF OBJECT_ID('' @ sq @ schema @ ''.'' @ table @ sq @ '', 'U') IS NULL'' @
     ''\<newline>        CREATE TABLE ['' @ schema @ ''].['' @ table @ ''] ('' @
     ''\<newline>            '' @ join '', '' (map col_def columns) @
     ''\<newline>            '' @ pk_clause schema table pk @
     ''\<newline>        );'' @
     ''\<newline>    ''"

definition create_table ::
  "sql_log \<Rightarrow> string \<Rightarrow> string \<Rightarrow> column list \<Rightarrow> string list \<Rightarrow> sql_log" where
  "create_table sql schema table columns pk =
     (sql @ [schema_sql schema]) @ [create_sql schema table columns pk]"

section \<open>Index migration\<close>

definition unique_marker :: "string \<Rightarrow> string" where
  "unique_marker idxdef = (if contains (lower idxdef) ''unique'' then ''UNIQUE'' else [])"

definition index_cols :: "string \<Rightarrow> error + string list" where
  "index_cols idxdef =
     (case str_index idxdef CHR ''('' of
        Inl e \<Rightarrow> Inl e
      | Inr i \<Rightarrow>
          (case str_index idxdef CHR '')'' of
             Inl e \<Rightarrow> Inl e
           | Inr stop \<Rightarrow> Inr (split_on CHR '','' (replace_dq (slice idxdef (i + 1) stop)))))"

definition col_list :: "string list \<Rightarrow> string" where
  "col_list cols = join '', '' (map (\<lambda>c. ''['' @ strip c @ '']'') cols)"

definition index_name :: "string \<Rightarrow> string \<Rightarrow> string \<Rightarrow> string" where
  "index_name schema table name = ''IX_'' @ schema @ ''_'' @ table @ ''_'' @ name"

definition index_sql :: "string \<Rightarrow> string \<Rightarrow> string \<Rightarrow> string \<Rightarrow> string \<Rightarrow> string" where
  "index_sql unique iname schema table clist =
     ''\<newline>            IF NOT EXISTS ('' @
     ''\<newline>                SELECT 1 FROM sys.indexes WHERE name='' @ sq @ iname @ sq @
     ''\<newline>            )'' @
     ''\<newline>            CREATE '' @ unique @ '' INDEX ['' @ iname @ '']'' @
     ''\<newline>            ON ['' @ schema @ ''].['' @ table @ ''] ('' @ clist @ '');'' @
     ''\<newline>        ''"

text \<open>One pass of the loop body of \<open>create_indexes\<close>, up to the statement it executes.\<close>

definition index_statement :: "string \<Rightarrow> string \<Rightarrow> string \<Rightarrow> string \<Rightarrow> error + string" where
  "index_statement schema table name idxdef =
     (let unique = unique_marker idxdef in
      case index_cols idxdef of
        Inl e \<Rightarrow> Inl e
      | Inr cols \<Rightarrow>
          Inr (index_sql unique (index_name schema table name) schema table (col_list cols)))"

text \<open>
  The loop stops at the first index whose definition does not parse; the statements
  executed before that stay executed.
\<close>

fun create_indexes ::
  "sql_log \<Rightarrow> string \<Rightarrow> string \<Rightarrow> (string \<times> string) list \<Rightarrow> error option \<times> sql_log" where
  "create_indexes sql schema table [] = (None, sql)"
| "create_indexes sql schema table ((name, idxdef) # rest) =
     (case index_statement schema table name idxdef of
        Inl e \<Rightarrow> (Some e, sql)
      | Inr stmt \<Rightarrow> create_indexes (sql @ [stmt]) schema table rest)"

section \<open>Foreign key migration\<close>

definition fk_sql :: "string \<Rightarrow> string \<Rightarrow> foreign_key \<Rightarrow> string" where
  "fk_sql schema table fk =
     (case fk of (fk_name, column, ref_schema, ref_table, ref_col) \<Rightarrow>
        ''\<newline>        ALTER TABLE ['' @ schema @ ''].['' @ table @ '']'' @
        ''\<newline>        ADD CONSTRAINT [FK_'' @ schema @ ''_'' @ table @ ''_'' @ fk_name @ '']'' @
        ''\<newline>        FOREIGN KEY (['' @ column @ ''])'' @
        ''\<newline>        REFERENCES ['' @ ref_schema @ ''].['' @ ref_table @ '']([''
          @ ref_col @ '']);'' @
        ''\<newline>        '')"

fun create_foreign_keys :: "sql_log \<Rightarrow> string \<Rightarrow> string \<Rightarrow> foreign_key list \<Rightarrow> sql_log" where
  "create_foreign_keys sql schema table [] = sql"
| "create_foreign_keys sql schema table (fk # fks) =
     create_foreign_keys (sql @ [fk_sql schema table fk]) schema table fks"

section \<open>Data copy\<close>

text \<open>
  The source table is the list of its rows: the count query answers its length and the
  select query opens a cursor on the rows, which \<open>fetchmany\<close> consumes from the front,
  at most \<open>BATCH_SIZE\<close> rows at a time. Each \<open>executemany\<close> call is recorded with its
  statement and its batch.
\<close>

definition count_sql :: "string \<Rightarrow> string \<Rightarrow> string" where
  "count_sql schema table =
     ''SELECT COUNT(*) FROM '' @ dq @ schema @ dq @ ''.'' @ dq @ table @ dq"

definition select_sql :: "string \<Rightarrow> string \<Rightarrow> string list \<Rightarrow> string" where
  "select_sql schema table col_names =
     (let pg_cols = join '', '' (map (\<lambda>c. dq @ c @ dq) col_names)
      in ''SELECT '' @ pg_cols @ '' FROM '' @ dq @ schema @ dq @ ''.'' @ dq @ table @ dq)"

definition insert_sql :: "string \<Rightarrow> string \<Rightarrow> string list \<Rightarrow> string" where
  "insert_sql schema table col_names =
     (let sql_cols = join '', '' (map (\<lambda>c. ''['' @ c @ '']'') col_names);
          placeholders = join '', '' (map (\<lambda>_. ''?'') col_names)
      in ''INSERT INTO ['' @ schema @ ''].['' @ table @ ''] ('' @ sql_cols @ '') VALUES ('' @
         placeholders @ '')'')"

function copy_loop ::
  "nat \<Rightarrow> string \<Rightarrow> 'r list \<Rightarrow> (string \<times> 'r list) list \<Rightarrow> nat \<Rightarrow> (string \<times> 'r list) list \<times> nat" where
  "copy_loop batch_size stmt cursor calls copied =
     (if take batch_size cursor = [] then (calls, copied)
      else copy_loop batch_size stmt (drop batch_size cursor)
             (calls @ [(stmt, take batch_size cursor)])
             (copied + length (take batch_size cursor)))"
  by pat_completeness auto
termination
  by (relation "measure (\<lambda>(b, s, cursor, calls, copied). length cursor)") auto

declare copy_loop.simps [simp del]

record 'r copy_trace =
  pg_queries :: "string list"
  total :: nat
  executemany_calls :: "(string \<times> 'r list) list"
  copied :: nat

definition copy_data ::
  "nat \<Rightarrow> 'r list \<Rightarrow> string \<Rightarrow> string \<Rightarrow> column list \<Rightarrow> 'r copy_trace" where
  "copy_data BATCH_SIZE rows schema table columns =
     (let col_names = map c_name columns;
          (calls, n) = copy_loop BATCH_SIZE (insert_sql schema table col_names) rows [] 0
      in \<lparr>pg_queries = [count_sql schema table, select_sql schema table col_names],
          total = length rows,
          executemany_calls = calls,
          copied = n\<rparr>)"

text \<open>
  The word \<open>unique\<close> in any mix of cases: each character is the lower-case or the
  upper-case letter at its position. This is the reading of "case-insensitive" that the
  index claims are stated with; it is not part of the migrator.
\<close>

definition spells_unique :: "string \<Rightarrow> bool" where
  "spells_unique w = list_all2 (\<lambda>c (l, u). c = l \<or> c = u) w (zip ''unique'' ''UNIQUE'')"

section \<open>Facts about the string helpers\<close>

lemma str_nat_small: "n < 10 \<Longrightarrow> str_nat n = [digit_char n]"
  by (simp add: str_nat.simps)

lemma str_nat_large:
  "\<not> n < 10 \<Longrightarrow> str_nat n = str_nat (n div 10) @ [digit_char (n mod 10)]"
  by (subst str_nat.simps) simp

lemma mapping_values_nonempty: "map_of mapping k = Some t \<Longrightarrow> t \<noteq> []"
  by (auto simp: mapping_def split: if_splits)

lemma mapping_unrecognized:
  "k \<notin> set recognized_types \<Longrightarrow> map_of mapping k = None"
  by (simp add: recognized_types_def map_of_eq_None_iff)

lemma mapping_varchar: "map_of mapping ''character varying'' = None"
  by (simp add: mapping_def)

lemma mapping_numeric: "map_of mapping ''numeric'' = None"
  by (simp add: mapping_def)

lemma mapping_decimal: "map_of mapping ''decimal'' = None"
  by (simp add: mapping_def)

lemma lower_varchar: "lower ''character varying'' = ''character varying''"
  by code_simp

lemma lower_numeric: "lower ''numeric'' = ''numeric''"
  by code_simp

lemma lower_uuid: "lower ''UUID'' = ''uuid''"
  by code_simp

section \<open>Type mapper: claims\<close>

text \<open>
  C1. The type mapper is total: for every source type name, optional length, precision
  and scale, and autoincrement flag, \<open>map_pg_type\<close> returns a non-empty target type
  string (the model has no raising branch, as the source has none on these inputs),
  and a name that no branch recognizes, on a column that is not autoincrement, maps to
  the unbounded text type \<open>NVARCHAR(MAX)\<close>.
\<close>

theorem map_pg_type_total:
  "map_pg_type t l p s a \<noteq> [] \<and>
   (\<not> a \<and> lower t \<notin> set recognized_types \<longrightarrow> map_pg_type t l p s a = ''NVARCHAR(MAX)'')"
proof
  show "map_pg_type t l p s a \<noteq> []"
    by (auto simp: map_pg_type_def Let_def dest: mapping_values_nonempty
        split: option.splits)
next
  show "\<not> a \<and> lower t \<notin> set recognized_types \<longrightarrow> map_pg_type t l p s a = ''NVARCHAR(MAX)''"
  proof
    assume h: "\<not> a \<and> lower t \<notin> set recognized_types"
    then have none: "map_of mapping (lower t) = None"
      by (simp add: mapping_unrecognized)
    from h have "lower t \<noteq> ''character varying''" "lower t \<noteq> ''text''"
      "lower t \<noteq> ''numeric''" "lower t \<noteq> ''decimal''"
      by (auto simp: recognized_types_def)
    with h none show "map_pg_type t l p s a = ''NVARCHAR(MAX)''"
      by (simp add: map_pg_type_def Let_def)
  qed
qed

theorem map_pg_type_total_witness:
  "map_pg_type ''UUID'' None None None False = ''NVARCHAR(MAX)''"
proof -
  have "lower ''UUID'' \<notin> set recognized_types"
    unfolding lower_uuid by (simp add: recognized_types_def mapping_def)
  with map_pg_type_total [of "''UUID''" None None None False] show ?thesis
    by simp
qed

text \<open>
  C2. Autoincrement precedence: when the autoincrement flag is set, \<open>map_pg_type\<close>
  returns \<open>INT IDENTITY(1,1)\<close> whatever the declared source type, length, precision
  and scale are.
\<close>

theorem autoincrement_precedence:
  "map_pg_type t l p s True = ''INT IDENTITY(1,1)''"
  by (simp add: map_pg_type_def Let_def)

text \<open>
  C3, as stated, fails at a declared length of 0: the length is given and is at most 4000,
  yet the result is \<open>NVARCHAR(MAX)\<close> and not \<open>NVARCHAR(0)\<close>, because the guard
  \<open>not length\<close> treats 0 like an absent length.
\<close>

theorem varchar_zero_length_counterexample:
  "map_pg_type ''character varying'' (Some 0) None None False \<noteq> ''NVARCHAR('' @ str_int 0 @ '')''"
proof -
  have "str_int 0 = ''0''"
    by code_simp
  then show ?thesis
    by (simp add: map_pg_type_def Let_def lower_varchar mapping_varchar)
qed

text \<open>
  C3 (amended). Varchar boundary: for a column that is not autoincrement and whose
  lower-cased source type is \<open>character varying\<close>, a length that is given, is not 0 and
  is at most 4000 yields \<open>NVARCHAR(length)\<close> with that exact length; an absent length,
  a length of 0 or a length above 4000 yields \<open>NVARCHAR(MAX)\<close>.
\<close>

theorem varchar_boundary:
  "lower t = ''character varying'' \<Longrightarrow>
   map_pg_type t l p s False =
     (case l of
        None \<Rightarrow> ''NVARCHAR(MAX)''
      | Some n \<Rightarrow>
          if n \<noteq> 0 \<and> n \<le> 4000 then ''NVARCHAR('' @ str_int n @ '')''
          else ''NVARCHAR(MAX)'')"
  by (auto simp: map_pg_type_def Let_def mapping_varchar split: option.splits)

theorem varchar_boundary_witness:
  "map_pg_type ''character varying'' (Some 255) None None False = ''NVARCHAR(255)'' \<and>
   map_pg_type ''character varying'' (Some 5000) None None False = ''NVARCHAR(MAX)'' \<and>
   map_pg_type ''character varying'' None None None False = ''NVARCHAR(MAX)''"
proof -
  have s: "str_int 255 = ''255''"
    by code_simp
  show ?thesis
    using varchar_boundary [OF lower_varchar, of "Some 255" None None]
      varchar_boundary [OF lower_varchar, of "Some 5000" None None]
      varchar_boundary [OF lower_varchar, of None None None]
    by (simp add: s)
qed

text \<open>
  C4. Decimal defaulting, evaluated where the code departs from it: a \<open>numeric\<close> column
  of precision 10 and scale 0 (a scale that is given) is mapped to \<open>DECIMAL(10,4)\<close>,
  since \<open>scale or 4\<close> replaces a scale of 0 by the default.
\<close>

theorem decimal_scale_zero_defaulted:
  "map_pg_type ''numeric'' None (Some 10) (Some 0) False = ''DECIMAL(10,4)''"
proof -
  have "str_int 10 = ''10''" "str_int 4 = ''4''"
    by code_simp+
  then show ?thesis
    by (simp add: map_pg_type_def Let_def lower_numeric mapping_numeric py_or_def)
qed

text \<open>
  Away from 0 the defaults behave as the specification words them, and its two examples
  evaluate as stated.
\<close>

lemma decimal_defaulting_nonzero:
  assumes "lower t = ''numeric'' \<or> lower t = ''decimal''" "p \<noteq> Some 0" "s \<noteq> Some 0"
  shows "map_pg_type t l p s False =
     ''DECIMAL('' @ str_int (case p of None \<Rightarrow> 18 | Some n \<Rightarrow> n) @ '','' @
       str_int (case s of None \<Rightarrow> 4 | Some n \<Rightarrow> n) @ '')''"
proof -
  have m: "map_of mapping (lower t) = None"
    using assms(1) by (elim disjE) (simp_all only: mapping_numeric mapping_decimal)
  have ne: "lower t \<noteq> ''character varying''" "lower t \<noteq> ''text''"
    using assms(1) by (elim disjE; simp)+
  have mem: "lower t \<in> set [''numeric'', ''decimal'']"
    using assms(1) by (elim disjE) simp_all
  have p: "py_or p 18 = (case p of None \<Rightarrow> 18 | Some n \<Rightarrow> n)"
    using assms(2) by (simp add: py_or_def split: option.splits)
  have s: "py_or s 4 = (case s of None \<Rightarrow> 4 | Some n \<Rightarrow> n)"
    using assms(3) by (simp add: py_or_def split: option.splits)
  show ?thesis
    unfolding map_pg_type_def Let_def p s using m ne mem by simp
qed

lemma decimal_examples:
  "map_pg_type ''numeric'' None None None False = ''DECIMAL(18,4)''"
  "map_pg_type ''numeric'' None (Some 10) (Some 2) False = ''DECIMAL(10,2)''"
  by code_simp+

section \<open>Facts about the loops and the string operations\<close>

lemma ceil_step:
  assumes "0 < B" "0 < (n::nat)"
  shows "(n + B - 1) div B = Suc ((n - B + B - 1) div B)"
proof -
  from assms obtain m where n: "n = Suc m"
    by (cases n) auto
  have lhs: "(n + B - 1) div B = Suc (m div B)"
    using assms div_add_self2 [of B m] by (simp add: n)
  have rhs: "(n - B + B - 1) div B = m div B"
  proof (cases "B \<le> n")
    case True
    then have "n - B + B - 1 = m" by (simp add: n)
    then show ?thesis by simp
  next
    case False
    then have "n - B + B - 1 = B - 1" "m < B" by (simp_all add: n)
    then show ?thesis using assms by simp
  qed
  show ?thesis by (simp only: lhs rhs)
qed

lemma copy_loop_count:
  "0 < B \<Longrightarrow>
   length (fst (copy_loop B stmt cursor calls n)) = length calls + (length cursor + B - 1) div B \<and>
   snd (copy_loop B stmt cursor calls n) = n + length cursor"
proof (induction B stmt cursor calls n rule: copy_loop.induct)
  case (1 B stmt cursor calls n)
  show ?case
  proof (cases "take B cursor = []")
    case True
    with "1.prems" have "cursor = []" by simp
    with "1.prems" show ?thesis by (simp add: copy_loop.simps)
  next
    case False
    then have ne: "0 < length cursor" by auto
    have unfold: "copy_loop B stmt cursor calls n =
        copy_loop B stmt (drop B cursor) (calls @ [(stmt, take B cursor)])
          (n + length (take B cursor))"
      using False by (subst copy_loop.simps) simp
    have ih: "length (fst (copy_loop B stmt (drop B cursor) (calls @ [(stmt, take B cursor)])
          (n + length (take B cursor)))) =
        length (calls @ [(stmt, take B cursor)]) + (length (drop B cursor) + B - 1) div B"
      and ih2: "snd (copy_loop B stmt (drop B cursor) (calls @ [(stmt, take B cursor)])
          (n + length (take B cursor))) = n + length (take B cursor) + length (drop B cursor)"
      using "1.IH" [OF False "1.prems"] by simp_all
    have cnt: "length (take B cursor) + length (drop B cursor) = length cursor"
      by (simp only: length_append [symmetric] append_take_drop_id)
    have "length (fst (copy_loop B stmt cursor calls n)) =
        Suc (length calls) + (length cursor - B + B - 1) div B"
      unfolding unfold ih by simp
    also have "\<dots> = length calls + (length cursor + B - 1) div B"
      using ceil_step [OF "1.prems" ne] by simp
    finally have a: "length (fst (copy_loop B stmt cursor calls n)) =
        length calls + (length cursor + B - 1) div B" .
    have b: "snd (copy_loop B stmt cursor calls n) = n + length cursor"
      unfolding unfold ih2 using cnt by simp
    from a b show ?thesis by simp
  qed
qed

lemma copy_loop_batches:
  "0 < B \<Longrightarrow>
   concat (map snd (fst (copy_loop B stmt cursor calls n))) = concat (map snd calls) @ cursor"
proof (induction B stmt cursor calls n rule: copy_loop.induct)
  case (1 B stmt cursor calls n)
  show ?case
  proof (cases "take B cursor = []")
    case True
    with "1.prems" have "cursor = []" by simp
    then show ?thesis by (simp add: copy_loop.simps)
  next
    case False
    have "copy_loop B stmt cursor calls n =
        copy_loop B stmt (drop B cursor) (calls @ [(stmt, take B cursor)])
          (n + length (take B cursor))"
      using False by (subst copy_loop.simps) simp
    then show ?thesis
      using "1.IH" [OF False "1.prems"] by simp
  qed
qed

lemma ceil_bounds:
  assumes "0 < (B::nat)"
  shows "N \<le> ((N + B - 1) div B) * B \<and> ((N + B - 1) div B) * B < N + B"
proof -
  define q where "q = (N + B - 1) div B"
  define r where "r = (N + B - 1) mod B"
  have e: "q * B + r = N + B - 1"
    unfolding q_def r_def by simp
  have r: "r < B"
    unfolding r_def using assms by simp
  from e r assms have "N \<le> q * B" "q * B < N + B"
    by linarith+
  then show ?thesis unfolding q_def by simp
qed

lemma startswith_iff: "startswith s p \<longleftrightarrow> (\<exists>r. s = p @ r)"
  by (induction s p rule: startswith.induct) auto

lemma contains_iff: "contains s sub \<longleftrightarrow> (\<exists>pre post. s = pre @ sub @ post)"
proof (induction s)
  case Nil
  then show ?case by auto
next
  case (Cons c cs)
  show ?case
  proof
    assume "contains (c # cs) sub"
    then consider "startswith (c # cs) sub" | "contains cs sub" by auto
    then show "\<exists>pre post. c # cs = pre @ sub @ post"
    proof cases
      case 1
      then obtain r where "c # cs = sub @ r" by (auto simp: startswith_iff)
      then have "c # cs = [] @ sub @ r" by simp
      then show ?thesis by blast
    next
      case 2
      with Cons obtain pre post where "cs = pre @ sub @ post" by auto
      then have "c # cs = (c # pre) @ sub @ post" by simp
      then show ?thesis by blast
    qed
  next
    assume "\<exists>pre post. c # cs = pre @ sub @ post"
    then obtain pre post where e: "c # cs = pre @ sub @ post" by auto
    show "contains (c # cs) sub"
    proof (cases pre)
      case Nil
      with e have "startswith (c # cs) sub" by (auto simp: startswith_iff)
      then show ?thesis by simp
    next
      case (Cons a pre')
      with e have "cs = pre' @ sub @ post" by simp
      with Cons.IH have "contains cs sub" by blast
      then show ?thesis by simp
    qed
  qed
qed

lemma startswith_append_same [simp]: "startswith (a @ s) (a @ p) = startswith s p"
  by (induction a) auto

lemma startswith_self [simp]: "startswith (p @ r) p"
  by (simp add: startswith_iff)

lemma str_index_fail_iff: "str_index s ch = Inl ValueError \<longleftrightarrow> ch \<notin> set s"
  by (induction s) (auto split: sum.splits)

lemma str_index_first:
  "ch \<notin> set pre \<Longrightarrow> str_index (pre @ ch # rest) ch = Inr (length pre)"
  by (induction pre) auto

lemma slice_middle: "slice (pre @ c # mid @ rest) (length pre + 1) (length pre + 1 + length mid) = mid"
  by (simp add: slice_def)

lemma create_foreign_keys_log:
  "create_foreign_keys sql schema table fks = sql @ map (fk_sql schema table) fks"
  by (induction fks arbitrary: sql) auto

lemma create_indexes_log:
  "create_indexes sql schema table indexes = (r, sql') \<Longrightarrow>
   \<exists>stmts. sql' = sql @ stmts \<and>
     (\<forall>stmt \<in> set stmts. \<exists>(name, idxdef) \<in> set indexes.
        index_statement schema table name idxdef = Inr stmt)"
proof (induction indexes arbitrary: sql)
  case Nil
  then show ?case by simp
next
  case (Cons ix rest)
  obtain name idxdef where ix: "ix = (name, idxdef)" by (cases ix)
  show ?case
  proof (cases "index_statement schema table name idxdef")
    case (Inl e)
    with Cons.prems ix show ?thesis by simp
  next
    case (Inr stmt)
    with Cons.prems ix have "create_indexes (sql @ [stmt]) schema table rest = (r, sql')"
      by simp
    from Cons.IH [OF this] obtain stmts where
      s: "sql' = (sql @ [stmt]) @ stmts" and
      a: "\<forall>st \<in> set stmts. \<exists>(name, idxdef) \<in> set rest.
        index_statement schema table name idxdef = Inr st"
      by blast
    have "sql' = sql @ (stmt # stmts)" using s by simp
    moreover have "\<forall>st \<in> set (stmt # stmts). \<exists>(name, idxdef) \<in> set (ix # rest).
        index_statement schema table name idxdef = Inr st"
      using a Inr ix by auto
    ultimately show ?thesis by blast
  qed
qed

lemma index_statement_guarded:
  "index_statement schema table name idxdef = Inr stmt \<Longrightarrow>
   startswith stmt
     (''\<newline>            IF NOT EXISTS ('' @
      ''\<newline>                SELECT 1 FROM sys.indexes WHERE name='' @ sq @
        index_name schema table name @ sq @
      ''\<newline>            )'' @
      ''\<newline>            CREATE '')"
  by (auto simp: index_statement_def index_sql_def Let_def split: sum.splits)

lemma create_sql_guarded:
  "startswith (create_sql schema table columns pk)
     (''\<newline>        IF OBJECT_ID('' @ sq @ schema @ ''.'' @ table @ sq @ '', 'U') IS NULL'' @
      ''\<newline>        CREATE TABLE ['' @ schema @ ''].['' @ table @ ''] ('')"
  by (simp add: create_sql_def)

lemma fk_sql_unguarded:
  "startswith (fk_sql schema table fk)
     (''\<newline>        ALTER TABLE ['' @ schema @ ''].['' @ table @ '']'' @
      ''\<newline>        ADD CONSTRAINT [FK_'' @ schema @ ''_'' @ table @ ''_'' @ fst fk @ '']'' @
      ''\<newline>        FOREIGN KEY (['')"
  by (cases fk) (simp add: fk_sql_def)

lemma index_statement_ok:
  "index_cols idxdef = Inr cols \<Longrightarrow>
   index_statement schema table name idxdef =
     Inr (index_sql (unique_marker idxdef) (index_name schema table name) schema table
       (col_list cols))"
  by (simp add: index_statement_def Let_def)

lemma index_statement_error:
  "index_cols idxdef = Inl e \<Longrightarrow> index_statement schema table name idxdef = Inl e"
  by (simp add: index_statement_def Let_def)

lemma index_cols_error_iff:
  "index_cols idxdef = Inl ValueError \<longleftrightarrow>
     CHR ''('' \<notin> set idxdef \<or> CHR '')'' \<notin> set idxdef"
proof -
  have e: "\<And>x. x = ValueError"
    by (case_tac x) simp
  have "index_cols idxdef = Inl ValueError \<longleftrightarrow>
      str_index idxdef CHR ''('' = Inl ValueError \<or> str_index idxdef CHR '')'' = Inl ValueError"
    using e by (auto simp: index_cols_def split: sum.splits)
  then show ?thesis
    by (simp only: str_index_fail_iff)
qed

lemma index_cols_between:
  assumes "CHR ''('' \<notin> set pre" "CHR '')'' \<notin> set pre" "CHR '')'' \<notin> set mid"
  shows "index_cols (pre @ ''('' @ mid @ '')'' @ post) =
     Inr (split_on CHR '','' (filter (\<lambda>c. c \<noteq> CHR 0x22) mid))"
proof -
  let ?s = "pre @ ''('' @ mid @ '')'' @ post"
  have i: "str_index ?s CHR ''('' = Inr (length pre)"
    using str_index_first [OF assms(1), of "mid @ '')'' @ post"] by simp
  have "CHR '')'' \<notin> set (pre @ ''('' @ mid)"
    using assms(2,3) by simp
  from str_index_first [OF this, of post]
  have j: "str_index ?s CHR '')'' = Inr (length pre + 1 + length mid)"
    by simp
  have "slice ?s (length pre + 1) (length pre + 1 + length mid) = mid"
    using slice_middle [of pre "CHR ''(''" mid "'')'' @ post"] by simp
  with i j show ?thesis
    by (simp add: index_cols_def replace_dq_def)
qed

lemma of_char_lower_char:
  "(of_char (lower_char c) :: nat) =
     (let n = (of_char c :: nat)
      in if (65 \<le> n \<and> n \<le> 90) \<or> (192 \<le> n \<and> n \<le> 222 \<and> n \<noteq> 215)
         then n + 32 else n)"
  by (simp add: lower_char_def Let_def)

lemma lower_char_letter:
  assumes "of_char l = (n::nat)" "of_char u = n - 32" "97 \<le> n" "n \<le> 122"
  shows "lower_char c = l \<longleftrightarrow> c = l \<or> c = u"
proof -
  have "lower_char c = l \<longleftrightarrow> (of_char (lower_char c) :: nat) = of_char l"
    by simp
  also have "\<dots> \<longleftrightarrow> (of_char c = n \<or> of_char c = n - 32)"
    unfolding of_char_lower_char assms(1) using assms(3,4) by (auto simp: Let_def)
  also have "\<dots> \<longleftrightarrow> ((of_char c :: nat) = of_char l \<or> (of_char c :: nat) = of_char u)"
    by (simp only: assms(1,2))
  also have "\<dots> \<longleftrightarrow> c = l \<or> c = u"
    by (simp only: of_char_eq_iff)
  finally show ?thesis .
qed

lemma lower_char_u: "lower_char c = CHR ''u'' \<longleftrightarrow> c = CHR ''u'' \<or> c = CHR ''U''"
  by (rule lower_char_letter [where n = 117]) simp_all

lemma lower_char_n: "lower_char c = CHR ''n'' \<longleftrightarrow> c = CHR ''n'' \<or> c = CHR ''N''"
  by (rule lower_char_letter [where n = 110]) simp_all

lemma lower_char_i: "lower_char c = CHR ''i'' \<longleftrightarrow> c = CHR ''i'' \<or> c = CHR ''I''"
  by (rule lower_char_letter [where n = 105]) simp_all

lemma lower_char_q: "lower_char c = CHR ''q'' \<longleftrightarrow> c = CHR ''q'' \<or> c = CHR ''Q''"
  by (rule lower_char_letter [where n = 113]) simp_all

lemma lower_char_e: "lower_char c = CHR ''e'' \<longleftrightarrow> c = CHR ''e'' \<or> c = CHR ''E''"
  by (rule lower_char_letter [where n = 101]) simp_all

lemma lower_spells_unique: "lower w = ''unique'' \<longleftrightarrow> spells_unique w"
proof -
  have "lower w = ''unique'' \<longleftrightarrow> list_all2 (\<lambda>c l. lower_char c = l) w ''unique''"
    unfolding lower_def by (simp only: list_all2_conv_all_nth list_eq_iff_nth_eq length_map)
      (auto simp: nth_map)
  also have "\<dots> \<longleftrightarrow> spells_unique w"
    unfolding spells_unique_def
    by (simp add: list_all2_Cons2 lower_char_u lower_char_n lower_char_i lower_char_q
        lower_char_e) 
  finally show ?thesis .
qed

lemma lower_append: "lower (a @ b) = lower a @ lower b"
  by (simp add: lower_def)

lemma map_infix_conv:
  "(\<exists>pre' post'. map f xs = pre' @ u @ post') \<longleftrightarrow>
   (\<exists>pre w post. xs = pre @ w @ post \<and> map f w = u)"
proof
  assume "\<exists>pre' post'. map f xs = pre' @ u @ post'"
  then obtain pre' post' where "map f xs = pre' @ u @ post'"
    by blast
  then have "\<exists>pre r. xs = pre @ r \<and> pre' = map f pre \<and> u @ post' = map f r"
    by (simp only: map_eq_append_conv)
  then obtain pre r where 1: "xs = pre @ r" and "u @ post' = map f r"
    by blast
  then have "\<exists>w post. r = w @ post \<and> u = map f w \<and> post' = map f post"
    by (simp only: append_eq_map_conv)
  then obtain w post where 2: "r = w @ post" and 3: "u = map f w"
    by blast
  from 1 2 3 show "\<exists>pre w post. xs = pre @ w @ post \<and> map f w = u"
    by blast
next
  assume "\<exists>pre w post. xs = pre @ w @ post \<and> map f w = u"
  then obtain pre w post where "xs = pre @ w @ post" "map f w = u"
    by blast
  then have "map f xs = map f pre @ u @ map f post"
    by simp
  then show "\<exists>pre' post'. map f xs = pre' @ u @ post'"
    by blast
qed

lemma unique_marker_iff:
  "unique_marker idxdef = ''UNIQUE'' \<longleftrightarrow>
     (\<exists>pre w post. idxdef = pre @ w @ post \<and> spells_unique w)"
proof -
  have "unique_marker idxdef = ''UNIQUE'' \<longleftrightarrow> contains (lower idxdef) ''unique''"
    by (simp add: unique_marker_def)
  also have "\<dots> \<longleftrightarrow> (\<exists>pre' post'. map lower_char idxdef = pre' @ ''unique'' @ post')"
    by (simp only: contains_iff lower_def)
  also have "\<dots> \<longleftrightarrow> (\<exists>pre w post. idxdef = pre @ w @ post \<and> map lower_char w = ''unique'')"
    by (rule map_infix_conv)
  also have "\<dots> \<longleftrightarrow> (\<exists>pre w post. idxdef = pre @ w @ post \<and> spells_unique w)"
    by (simp only: lower_spells_unique [unfolded lower_def])
  finally show ?thesis .
qed

lemma unique_marker_cases: "unique_marker idxdef = ''UNIQUE'' \<or> unique_marker idxdef = []"
  by (simp add: unique_marker_def)

lemma index_sql_inject: "index_sql u n s t c = index_sql u' n s t c \<longleftrightarrow> u = u'"
  by (simp add: index_sql_def)

lemma split_on_nonempty: "split_on sep s \<noteq> []"
  by (induction s) (auto split: list.splits)

lemma split_on_join: "join [sep] (split_on sep s) = s"
proof (induction s)
  case Nil
  then show ?case by simp
next
  case (Cons c cs)
  obtain w ws where e: "split_on sep cs = w # ws"
    using split_on_nonempty [of sep cs] by (cases "split_on sep cs") auto
  with Cons show ?case
    by (cases ws) auto
qed

lemma split_on_pieces: "w \<in> set (split_on sep s) \<Longrightarrow> sep \<notin> set w"
  by (induction s arbitrary: w) (auto split: if_splits list.splits)

lemma index_cols_reversed_parens: "index_cols '')('' = Inr [[]]"
  by code_simp

section \<open>Data copy: claims\<close>

text \<open>
  C5. Batch accounting: for a source table of \<open>N\<close> rows and a batch size \<open>B > 0\<close>,
  \<open>copy_data\<close> issues exactly \<open>\<lceil>N / B\<rceil>\<close> \<open>executemany\<close> calls (the number \<open>k\<close> with
  \<open>N \<le> k * B < N + B\<close>, that is \<open>(N + B - 1) div B\<close>), and the copied-row counter after the
  last call equals \<open>N\<close>, which is also the answer of the initial count query. The witness
  is the table of 250000 rows copied with batch size 10000 in 25 calls.
\<close>

theorem batch_accounting:
  "0 < B \<Longrightarrow>
   length (executemany_calls (copy_data B rows schema table columns)) = (length rows + B - 1) div B \<and>
   length rows \<le> length (executemany_calls (copy_data B rows schema table columns)) * B \<and>
   length (executemany_calls (copy_data B rows schema table columns)) * B < length rows + B \<and>
   copied (copy_data B rows schema table columns) = length rows \<and>
   copied (copy_data B rows schema table columns) = total (copy_data B rows schema table columns)"
proof -
  assume B: "0 < B"
  let ?l = "copy_loop B (insert_sql schema table (map c_name columns)) rows [] 0"
  have calls: "executemany_calls (copy_data B rows schema table columns) = fst ?l"
    and cp: "copied (copy_data B rows schema table columns) = snd ?l"
    and tot: "total (copy_data B rows schema table columns) = length rows"
    by (simp_all add: copy_data_def Let_def split: prod.splits)
  from copy_loop_count [OF B, of "insert_sql schema table (map c_name columns)" rows "[]" 0]
  have n: "length (fst ?l) = (length rows + B - 1) div B" and c: "snd ?l = length rows"
    by simp_all
  show ?thesis
    unfolding calls cp tot n c using ceil_bounds [OF B, of "length rows"] by simp
qed

theorem batch_accounting_witness:
  "length (executemany_calls
     (copy_data 10000 (replicate 250000 ()) ''public'' ''users'' [])) = 25 \<and>
   copied (copy_data 10000 (replicate 250000 ()) ''public'' ''users'' []) = 250000 \<and>
   total (copy_data 10000 (replicate 250000 ()) ''public'' ''users'' []) = 250000"
proof -
  have B: "(0::nat) < 10000" by simp
  show ?thesis
    using batch_accounting [OF B, of "replicate 250000 ()" "''public''" "''users''" "[]"]
    by simp
qed

section \<open>DDL synthesis: claims\<close>

text \<open>
  C6. Idempotency asymmetry: the statement that creates the table opens with the guard
  \<open>IF OBJECT_ID('schema.table', 'U') IS NULL\<close>, every statement that \<open>create_indexes\<close>
  executes opens with the guard \<open>IF NOT EXISTS (SELECT 1 FROM sys.indexes WHERE name=...)\<close>
  on the name of one of the given indexes, and every statement that
  \<open>create_foreign_keys\<close> executes (one per foreign key, in order) opens directly with
  \<open>ALTER TABLE ... ADD CONSTRAINT\<close>, with no guard before it.
\<close>

theorem idempotency_asymmetry:
  "create_table sql schema table columns pk =
     sql @ [schema_sql schema, create_sql schema table columns pk] \<and>
   startswith (create_sql schema table columns pk)
     (''\<newline>        IF OBJECT_ID('' @ sq @ schema @ ''.'' @ table @ sq @ '', 'U') IS NULL'' @
      ''\<newline>        CREATE TABLE ['' @ schema @ ''].['' @ table @ ''] ('') \<and>
   (create_indexes sql schema table indexes = (r, sql') \<longrightarrow>
      (\<exists>stmts. sql' = sql @ stmts \<and>
         (\<forall>stmt \<in> set stmts. \<exists>(name, idxdef) \<in> set indexes.
            startswith stmt
              (''\<newline>            IF NOT EXISTS ('' @
               ''\<newline>                SELECT 1 FROM sys.indexes WHERE name='' @ sq @
                 index_name schema table name @ sq @
               ''\<newline>            )'' @
               ''\<newline>            CREATE '')))) \<and>
   create_foreign_keys sql schema table fks = sql @ map (fk_sql schema table) fks \<and>
   (\<forall>fk \<in> set fks.
      startswith (fk_sql schema table fk)
        (''\<newline>        ALTER TABLE ['' @ schema @ ''].['' @ table @ '']'' @
         ''\<newline>        ADD CONSTRAINT [FK_'' @ schema @ ''_'' @ table @ ''_'' @ fst fk @ '']'' @
         ''\<newline>        FOREIGN KEY ([''))"
proof (intro conjI impI ballI)
  show "create_table sql schema table columns pk =
     sql @ [schema_sql schema, create_sql schema table columns pk]"
    by (simp add: create_table_def)
next
  show "startswith (create_sql schema table columns pk)
     (''\<newline>        IF OBJECT_ID('' @ sq @ schema @ ''.'' @ table @ sq @ '', 'U') IS NULL'' @
      ''\<newline>        CREATE TABLE ['' @ schema @ ''].['' @ table @ ''] ('')"
    by (rule create_sql_guarded)
next
  assume "create_indexes sql schema table indexes = (r, sql')"
  from create_indexes_log [OF this] obtain stmts where
    s: "sql' = sql @ stmts" and
    a: "\<forall>stmt \<in> set stmts. \<exists>(name, idxdef) \<in> set indexes.
        index_statement schema table name idxdef = Inr stmt"
    by blast
  have "\<forall>stmt \<in> set stmts. \<exists>(name, idxdef) \<in> set indexes.
      startswith stmt
        (''\<newline>            IF NOT EXISTS ('' @
         ''\<newline>                SELECT 1 FROM sys.indexes WHERE name='' @ sq @
           index_name schema table name @ sq @
         ''\<newline>            )'' @
         ''\<newline>            CREATE '')"
  proof
    fix stmt
    assume "stmt \<in> set stmts"
    with a obtain name idxdef where "(name, idxdef) \<in> set indexes"
      "index_statement schema table name idxdef = Inr stmt"
      by blast
    then show "\<exists>(name, idxdef) \<in> set indexes.
      startswith stmt
        (''\<newline>            IF NOT EXISTS ('' @
         ''\<newline>                SELECT 1 FROM sys.indexes WHERE name='' @ sq @
           index_name schema table name @ sq @
         ''\<newline>            )'' @
         ''\<newline>            CREATE '')"
      using index_statement_guarded by blast
  qed
  with s show "\<exists>stmts. sql' = sql @ stmts \<and>
         (\<forall>stmt \<in> set stmts. \<exists>(name, idxdef) \<in> set indexes.
            startswith stmt
              (''\<newline>            IF NOT EXISTS ('' @
               ''\<newline>                SELECT 1 FROM sys.indexes WHERE name='' @ sq @
                 index_name schema table name @ sq @
               ''\<newline>            )'' @
               ''\<newline>            CREATE ''))"
    by blast
next
  show "create_foreign_keys sql schema table fks = sql @ map (fk_sql schema table) fks"
    by (rule create_foreign_keys_log)
next
  fix fk
  show "startswith (fk_sql schema table fk)
        (''\<newline>        ALTER TABLE ['' @ schema @ ''].['' @ table @ '']'' @
         ''\<newline>        ADD CONSTRAINT [FK_'' @ schema @ ''_'' @ table @ ''_'' @ fst fk @ '']'' @
         ''\<newline>        FOREIGN KEY (['')"
    by (rule fk_sql_unguarded)
qed

theorem idempotency_asymmetry_witness:
  "startswith (index_sql [] ''IX_s_t_i'' ''s'' ''t'' ''[a]'')
     (''\<newline>            IF NOT EXISTS ('' @
      ''\<newline>                SELECT 1 FROM sys.indexes WHERE name='' @ sq @ ''IX_s_t_i'' @ sq @
      ''\<newline>            )'' @
      ''\<newline>            CREATE '') \<and>
   create_foreign_keys [] ''s'' ''t'' [(''fk1'', ''cid'', ''s'', ''c'', ''id'')] =
     [fk_sql ''s'' ''t'' (''fk1'', ''cid'', ''s'', ''c'', ''id'')] \<and>
   startswith (fk_sql ''s'' ''t'' (''fk1'', ''cid'', ''s'', ''c'', ''id''))
     (''\<newline>        ALTER TABLE [s].[t]'' @
      ''\<newline>        ADD CONSTRAINT [FK_s_t_fk1]'' @
      ''\<newline>        FOREIGN KEY (['')"
proof -
  have ix: "create_indexes [] ''s'' ''t'' [(''i'', ''CREATE INDEX i ON s.t USING btree (a)'')] =
      (None, [index_sql [] ''IX_s_t_i'' ''s'' ''t'' ''[a]''])"
    by code_simp
  have n: "index_name ''s'' ''t'' ''i'' = ''IX_s_t_i''"
    by (simp add: index_name_def)
  show ?thesis
    using idempotency_asymmetry [of "[]" "''s''" "''t''" "[]" "[]"
        "[(''i'', ''CREATE INDEX i ON s.t USING btree (a)'')]" None
        "[index_sql [] ''IX_s_t_i'' ''s'' ''t'' ''[a]'']"
        "[(''fk1'', ''cid'', ''s'', ''c'', ''id'')]"] ix
    by (simp add: n)
qed

text \<open>
  C7. Nullability markers: the definition of a column that is nullable and not
  autoincrement ends with the marker \<open>NULL\<close>; the definition of an autoincrement column is
  \<open>[name] INT IDENTITY(1,1) NOT NULL\<close> whatever its declared nullability; the definition of
  a column that is not nullable ends with \<open>NOT NULL\<close>. The column list of the
  \<open>CREATE TABLE\<close> statement is made of these definitions, joined by commas.
\<close>

theorem nullability_markers:
  "(c_nullable c \<and> \<not> c_is_serial c \<longrightarrow>
      col_def c = ''['' @ c_name c @ ''] '' @
        map_pg_type (c_data_type c) (c_length c) (c_precision c) (c_scale c) False @ '' NULL'') \<and>
   (c_is_serial c \<longrightarrow> col_def c = ''['' @ c_name c @ ''] INT IDENTITY(1,1) NOT NULL'') \<and>
   (\<not> c_nullable c \<longrightarrow>
      col_def c = ''['' @ c_name c @ ''] '' @
        map_pg_type (c_data_type c) (c_length c) (c_precision c) (c_scale c) (c_is_serial c) @
        '' NOT NULL'') \<and>
   startswith (create_sql schema table columns pk)
     (''\<newline>        IF OBJECT_ID('' @ sq @ schema @ ''.'' @ table @ sq @ '', 'U') IS NULL'' @
      ''\<newline>        CREATE TABLE ['' @ schema @ ''].['' @ table @ ''] ('' @
      ''\<newline>            '' @ join '', '' (map col_def columns) @ ''\<newline>'')"
proof (intro conjI impI)
  assume "c_nullable c \<and> \<not> c_is_serial c"
  then show "col_def c = ''['' @ c_name c @ ''] '' @
      map_pg_type (c_data_type c) (c_length c) (c_precision c) (c_scale c) False @ '' NULL''"
    by (simp add: col_def_def Let_def)
next
  assume "c_is_serial c"
  then show "col_def c = ''['' @ c_name c @ ''] INT IDENTITY(1,1) NOT NULL''"
    by (simp add: col_def_def Let_def map_pg_type_def)
next
  assume "\<not> c_nullable c"
  then show "col_def c = ''['' @ c_name c @ ''] '' @
      map_pg_type (c_data_type c) (c_length c) (c_precision c) (c_scale c) (c_is_serial c) @
      '' NOT NULL''"
    by (simp add: col_def_def Let_def)
next
  show "startswith (create_sql schema table columns pk)
     (''\<newline>        IF OBJECT_ID('' @ sq @ schema @ ''.'' @ table @ sq @ '', 'U') IS NULL'' @
      ''\<newline>        CREATE TABLE ['' @ schema @ ''].['' @ table @ ''] ('' @
      ''\<newline>            '' @ join '', '' (map col_def columns) @ ''\<newline>'')"
    by (simp add: create_sql_def)
qed

theorem nullability_markers_witness:
  "col_def \<lparr>c_name = ''created_at'', c_data_type = ''timestamp without time zone'',
      c_nullable = True, c_length = None, c_precision = None, c_scale = None,
      c_is_serial = False\<rparr> = ''[created_at] DATETIME2 NULL'' \<and>
   col_def \<lparr>c_name = ''id'', c_data_type = ''integer'',
      c_nullable = True, c_length = None, c_precision = Some 32, c_scale = Some 0,
      c_is_serial = True\<rparr> = ''[id] INT IDENTITY(1,1) NOT NULL'' \<and>
   col_def \<lparr>c_name = ''email'', c_data_type = ''character varying'',
      c_nullable = False, c_length = Some 255, c_precision = None, c_scale = None,
      c_is_serial = False\<rparr> = ''[email] NVARCHAR(255) NOT NULL''"
proof -
  have t: "map_pg_type ''timestamp without time zone'' None None None False = ''DATETIME2''"
    by code_simp
  have v: "map_pg_type ''character varying'' (Some 255) None None False = ''NVARCHAR(255)''"
    by code_simp
  show ?thesis
    using
      nullability_markers [of "\<lparr>c_name = ''created_at'',
        c_data_type = ''timestamp without time zone'',
        c_nullable = True, c_length = None, c_precision = None, c_scale = None,
        c_is_serial = False\<rparr>"]
      nullability_markers [of "\<lparr>c_name = ''id'', c_data_type = ''integer'',
        c_nullable = True, c_length = None, c_precision = Some 32, c_scale = Some 0,
        c_is_serial = True\<rparr>"]
      nullability_markers [of "\<lparr>c_name = ''email'', c_data_type = ''character varying'',
        c_nullable = False, c_length = Some 255, c_precision = None, c_scale = None,
        c_is_serial = False\<rparr>"]
    by (simp add: t v)
qed

text \<open>
  C8. Naming convention: the primary-key constraint is named \<open>PK_{schema}_{table}\<close>, the
  index \<open>IX_{schema}_{table}_{indexname}\<close> (in the guard and in the \<open>CREATE INDEX\<close> line)
  and the foreign-key constraint \<open>FK_{schema}_{table}_{constraintname}\<close>, each between
  brackets in the synthesized statement.
\<close>

theorem naming_convention:
  "(pk \<noteq> [] \<longrightarrow>
      pk_clause schema table pk =
        '', CONSTRAINT [PK_'' @ schema @ ''_'' @ table @ ''] PRIMARY KEY ('' @
        join '', '' (map (\<lambda>c. ''['' @ c @ '']'') pk) @ '')'') \<and>
   create_sql schema table columns pk =
     ''\<newline>        IF OBJECT_ID('' @ sq @ schema @ ''.'' @ table @ sq @ '', 'U') IS NULL'' @
     ''\<newline>        CREATE TABLE ['' @ schema @ ''].['' @ table @ ''] ('' @
     ''\<newline>            '' @ join '', '' (map col_def columns) @
     ''\<newline>            '' @ pk_clause schema table pk @
     ''\<newline>        );\<newline>    '' \<and>
   (index_statement schema table name idxdef = Inr stmt \<longrightarrow>
      (\<exists>cols. stmt =
        ''\<newline>            IF NOT EXISTS ('' @
        ''\<newline>                SELECT 1 FROM sys.indexes WHERE name='' @ sq @
          ''IX_'' @ schema @ ''_'' @ table @ ''_'' @ name @ sq @
        ''\<newline>            )'' @
        ''\<newline>            CREATE '' @ unique_marker idxdef @
          '' INDEX [IX_'' @ schema @ ''_'' @ table @ ''_'' @ name @ '']'' @
        ''\<newline>            ON ['' @ schema @ ''].['' @ table @ ''] ('' @ cols @ '');'' @
        ''\<newline>        '')) \<and>
   fk_sql schema table (fk_name, column, ref_schema, ref_table, ref_col) =
     ''\<newline>        ALTER TABLE ['' @ schema @ ''].['' @ table @ '']'' @
     ''\<newline>        ADD CONSTRAINT [FK_'' @ schema @ ''_'' @ table @ ''_'' @ fk_name @ '']'' @
     ''\<newline>        FOREIGN KEY (['' @ column @ ''])'' @
     ''\<newline>        REFERENCES ['' @ ref_schema @ ''].['' @ ref_table @ '']([''
       @ ref_col @ '']);'' @
     ''\<newline>        ''"
proof (intro conjI impI)
  assume "pk \<noteq> []"
  then show "pk_clause schema table pk =
      '', CONSTRAINT [PK_'' @ schema @ ''_'' @ table @ ''] PRIMARY KEY ('' @
      join '', '' (map (\<lambda>c. ''['' @ c @ '']'') pk) @ '')''"
    by (simp add: pk_clause_def Let_def)
next
  show "create_sql schema table columns pk =
     ''\<newline>        IF OBJECT_ID('' @ sq @ schema @ ''.'' @ table @ sq @ '', 'U') IS NULL'' @
     ''\<newline>        CREATE TABLE ['' @ schema @ ''].['' @ table @ ''] ('' @
     ''\<newline>            '' @ join '', '' (map col_def columns) @
     ''\<newline>            '' @ pk_clause schema table pk @
     ''\<newline>        );\<newline>    ''"
    by (simp add: create_sql_def)
next
  assume a: "index_statement schema table name idxdef = Inr stmt"
  then obtain cols where "index_cols idxdef = Inr cols"
    by (cases "index_cols idxdef") (simp_all add: index_statement_def Let_def)
  with a have "stmt = index_sql (unique_marker idxdef) (index_name schema table name)
      schema table (col_list cols)"
    by (simp add: index_statement_ok)
  then show "\<exists>cols. stmt =
        ''\<newline>            IF NOT EXISTS ('' @
        ''\<newline>                SELECT 1 FROM sys.indexes WHERE name='' @ sq @
          ''IX_'' @ schema @ ''_'' @ table @ ''_'' @ name @ sq @
        ''\<newline>            )'' @
        ''\<newline>            CREATE '' @ unique_marker idxdef @
          '' INDEX [IX_'' @ schema @ ''_'' @ table @ ''_'' @ name @ '']'' @
        ''\<newline>            ON ['' @ schema @ ''].['' @ table @ ''] ('' @ cols @ '');'' @
        ''\<newline>        ''"
    by (intro exI [of _ "col_list cols"]) (simp add: index_sql_def index_name_def)
next
  show "fk_sql schema table (fk_name, column, ref_schema, ref_table, ref_col) =
     ''\<newline>        ALTER TABLE ['' @ schema @ ''].['' @ table @ '']'' @
     ''\<newline>        ADD CONSTRAINT [FK_'' @ schema @ ''_'' @ table @ ''_'' @ fk_name @ '']'' @
     ''\<newline>        FOREIGN KEY (['' @ column @ ''])'' @
     ''\<newline>        REFERENCES ['' @ ref_schema @ ''].['' @ ref_table @ '']([''
       @ ref_col @ '']);'' @
     ''\<newline>        ''"
    by (simp add: fk_sql_def)
qed

theorem naming_convention_witness:
  "pk_clause ''public'' ''users'' [''id''] = '', CONSTRAINT [PK_public_users] PRIMARY KEY ([id])'' \<and>
   (\<exists>cols. index_sql [] ''IX_s_t_i'' ''s'' ''t'' ''[a]'' =
        ''\<newline>            IF NOT EXISTS ('' @
        ''\<newline>                SELECT 1 FROM sys.indexes WHERE name='' @ sq @ ''IX_s_t_i'' @ sq @
        ''\<newline>            )'' @
        ''\<newline>            CREATE  INDEX [IX_s_t_i]'' @
        ''\<newline>            ON [s].[t] ('' @ cols @ '');'' @
        ''\<newline>        '')"
proof -
  have ix: "index_statement ''s'' ''t'' ''i'' ''CREATE INDEX i ON s.t USING btree (a)'' =
      Inr (index_sql [] ''IX_s_t_i'' ''s'' ''t'' ''[a]'')"
    by code_simp
  have u: "unique_marker ''CREATE INDEX i ON s.t USING btree (a)'' = []"
    by code_simp
  have p: "[''id''] \<noteq> ([] :: string list)"
    by simp
  show ?thesis
    using naming_convention [of "[''id'']" "''public''" "''users''" "[]" "''i''"
        "''CREATE INDEX i ON s.t USING btree (a)''" "index_sql [] ''IX_s_t_i'' ''s'' ''t'' ''[a]''"]
      naming_convention [of "[]" "''s''" "''t''" "[]" "''i''"
        "''CREATE INDEX i ON s.t USING btree (a)''" "index_sql [] ''IX_s_t_i'' ''s'' ''t'' ''[a]''"]
      ix p
    by (simp add: u)
qed

section \<open>Index definitions: claims\<close>

text \<open>
  C9. Implicit uniqueness detection: whenever the index statement is emitted, it is the
  \<open>CREATE UNIQUE INDEX\<close> form if and only if the word \<open>unique\<close>, in any mix of upper and
  lower case, occurs somewhere in the index-definition string, and the plain
  \<open>CREATE  INDEX\<close> form otherwise. The witness is a non-unique index on a column named
  \<open>unique_code\<close>, which is emitted as \<open>UNIQUE\<close>.
\<close>

theorem implicit_uniqueness:
  "index_cols idxdef = Inr cols \<Longrightarrow>
   (index_statement schema table name idxdef =
      Inr (index_sql ''UNIQUE'' (index_name schema table name) schema table (col_list cols)) \<longleftrightarrow>
    (\<exists>pre w post. idxdef = pre @ w @ post \<and> spells_unique w)) \<and>
   (index_statement schema table name idxdef =
      Inr (index_sql [] (index_name schema table name) schema table (col_list cols)) \<longleftrightarrow>
    \<not> (\<exists>pre w post. idxdef = pre @ w @ post \<and> spells_unique w))"
proof -
  assume c: "index_cols idxdef = Inr cols"
  have s: "index_statement schema table name idxdef =
      Inr (index_sql (unique_marker idxdef) (index_name schema table name) schema table
        (col_list cols))"
    by (rule index_statement_ok [OF c])
  have u: "unique_marker idxdef = ''UNIQUE'' \<longleftrightarrow>
      (\<exists>pre w post. idxdef = pre @ w @ post \<and> spells_unique w)"
    by (rule unique_marker_iff)
  have e: "unique_marker idxdef = [] \<longleftrightarrow> unique_marker idxdef \<noteq> ''UNIQUE''"
    using unique_marker_cases [of idxdef] by auto
  show ?thesis
    unfolding s sum.inject index_sql_inject e using u by simp
qed

theorem implicit_uniqueness_witness:
  "index_statement ''public'' ''orders'' ''idx_code''
     ''CREATE INDEX idx_code ON public.orders USING btree (unique_code)'' =
   Inr (index_sql ''UNIQUE'' ''IX_public_orders_idx_code'' ''public'' ''orders'' ''[unique_code]'')"
proof -
  let ?d = "''CREATE INDEX idx_code ON public.orders USING btree (unique_code)''"
  have c: "index_cols ?d = Inr [''unique_code'']"
    by code_simp
  have n: "index_name ''public'' ''orders'' ''idx_code'' = ''IX_public_orders_idx_code''"
    by (simp add: index_name_def)
  have l: "col_list [''unique_code''] = ''[unique_code]''"
    by code_simp
  have w: "spells_unique ''unique''"
    by code_simp
  have "?d = ''CREATE INDEX idx_code ON public.orders USING btree ('' @ ''unique'' @ ''_code)''"
    by simp
  with w have "\<exists>pre w post. ?d = pre @ w @ post \<and> spells_unique w"
    by (intro exI conjI)
  with implicit_uniqueness [OF c, of "''public''" "''orders''" "''idx_code''"]
  show ?thesis
    by (simp only: n l)
qed

text \<open>
  C10. Parse precondition: \<open>index_cols\<close> raises \<open>ValueError\<close> exactly when the definition
  string lacks a \<open>(\<close> or lacks a \<open>)\<close>, and \<open>create_indexes\<close> then stops with that error
  without executing a statement for that index. When the string reads
  \<open>pre ( mid ) post\<close> with no parenthesis in \<open>pre\<close> and no \<open>)\<close> in \<open>mid\<close>, the column list is
  \<open>mid\<close> without its double quotes, split at the commas, each entry stripped and put
  between brackets in the statement.
\<close>

theorem index_parse:
  "(index_cols idxdef = Inl ValueError \<longleftrightarrow>
      CHR ''('' \<notin> set idxdef \<or> CHR '')'' \<notin> set idxdef) \<and>
   (index_cols idxdef = Inl ValueError \<longrightarrow>
      create_indexes sql schema table ((name, idxdef) # rest) = (Some ValueError, sql)) \<and>
   (CHR ''('' \<notin> set pre \<and> CHR '')'' \<notin> set pre \<and> CHR '')'' \<notin> set mid \<longrightarrow>
      index_cols (pre @ ''('' @ mid @ '')'' @ post) =
        Inr (split_on CHR '','' (filter (\<lambda>c. c \<noteq> CHR 0x22) mid)) \<and>
      index_statement schema table name (pre @ ''('' @ mid @ '')'' @ post) =
        Inr (index_sql (unique_marker (pre @ ''('' @ mid @ '')'' @ post))
          (index_name schema table name) schema table
          (join '', '' (map (\<lambda>c. ''['' @ strip c @ '']'')
             (split_on CHR '','' (filter (\<lambda>c. c \<noteq> CHR 0x22) mid))))))"
proof (intro conjI impI)
  show "index_cols idxdef = Inl ValueError \<longleftrightarrow>
      CHR ''('' \<notin> set idxdef \<or> CHR '')'' \<notin> set idxdef"
    by (rule index_cols_error_iff)
next
  assume "index_cols idxdef = Inl ValueError"
  then show "create_indexes sql schema table ((name, idxdef) # rest) = (Some ValueError, sql)"
    by (simp add: index_statement_error)
next
  assume a: "CHR ''('' \<notin> set pre \<and> CHR '')'' \<notin> set pre \<and> CHR '')'' \<notin> set mid"
  then show c: "index_cols (pre @ ''('' @ mid @ '')'' @ post) =
      Inr (split_on CHR '','' (filter (\<lambda>c. c \<noteq> CHR 0x22) mid))"
    by (intro index_cols_between) simp_all
  show "index_statement schema table name (pre @ ''('' @ mid @ '')'' @ post) =
        Inr (index_sql (unique_marker (pre @ ''('' @ mid @ '')'' @ post))
          (index_name schema table name) schema table
          (join '', '' (map (\<lambda>c. ''['' @ strip c @ '']'')
             (split_on CHR '','' (filter (\<lambda>c. c \<noteq> CHR 0x22) mid)))))"
    using index_statement_ok [OF c] by (simp add: col_list_def)
qed

theorem index_parse_witness:
  "index_cols ''CREATE INDEX broken'' = Inl ValueError \<and>
   create_indexes [] ''s'' ''t'' [(''i'', ''CREATE INDEX broken'')] = (Some ValueError, []) \<and>
   index_cols (''CREATE INDEX i ON s.t USING btree '' @ ''('' @
       (''a, '' @ dq @ ''B c'' @ dq @ '' ,d'') @ '')'' @ []) =
     Inr [''a'', '' B c '', ''d''] \<and>
   index_statement ''s'' ''t'' ''i'' (''CREATE INDEX i ON s.t USING btree '' @ ''('' @
       (''a, '' @ dq @ ''B c'' @ dq @ '' ,d'') @ '')'' @ []) =
     Inr (index_sql [] ''IX_s_t_i'' ''s'' ''t'' ''[a], [B c], [d]'')"
proof -
  let ?pre = "''CREATE INDEX i ON s.t USING btree ''"
  let ?mid = "''a, '' @ dq @ ''B c'' @ dq @ '' ,d''"
  have h: "CHR ''('' \<notin> set ?pre \<and> CHR '')'' \<notin> set ?pre \<and> CHR '')'' \<notin> set ?mid"
    by simp
  have b: "CHR ''('' \<notin> set ''CREATE INDEX broken'' \<or> CHR '')'' \<notin> set ''CREATE INDEX broken''"
    by simp
  have sp: "split_on CHR '','' (filter (\<lambda>c. c \<noteq> CHR 0x22) ?mid) = [''a'', '' B c '', ''d'']"
    by code_simp
  have cl: "join '', '' (map (\<lambda>c. ''['' @ strip c @ '']'') [''a'', '' B c '', ''d'']) =
      ''[a], [B c], [d]''"
    by code_simp
  have u: "unique_marker (?pre @ ''('' @ ?mid @ '')'' @ []) = []"
    by code_simp
  have n: "index_name ''s'' ''t'' ''i'' = ''IX_s_t_i''"
    by (simp add: index_name_def)
  from index_parse [of "''CREATE INDEX broken''" "[]" "''s''" "''t''" "''i''" "[]" ?pre ?mid "[]"]
  have 1: "index_cols ''CREATE INDEX broken'' = Inl ValueError"
    and 2: "create_indexes [] ''s'' ''t'' [(''i'', ''CREATE INDEX broken'')] = (Some ValueError, [])"
    and 3: "index_cols (?pre @ ''('' @ ?mid @ '')'' @ []) =
        Inr (split_on CHR '','' (filter (\<lambda>c. c \<noteq> CHR 0x22) ?mid))"
    and 4: "index_statement ''s'' ''t'' ''i'' (?pre @ ''('' @ ?mid @ '')'' @ []) =
        Inr (index_sql (unique_marker (?pre @ ''('' @ ?mid @ '')'' @ []))
          (index_name ''s'' ''t'' ''i'') ''s'' ''t''
          (join '', '' (map (\<lambda>c. ''['' @ strip c @ '']'')
             (split_on CHR '','' (filter (\<lambda>c. c \<noteq> CHR 0x22) ?mid)))))"
    using h b by blast+
  show ?thesis
    using 1 2 3 4 unfolding sp cl u n by (intro conjI)
qed

end
